theory Spec2Isabelle
  imports Complex_Main "HOL-Library.Multiset" "HOL-Library.Sublist"
begin

section \<open>Strings of the platform\<close>

text \<open>
  A JavaScript string is a sequence of UTF-16 code units. The model keeps the code units
  below 256 (Latin-1), one \<^typ>\<open>char\<close> each, and every string function below is the
  platform's function on such strings.
\<close>

text \<open>\<^verbatim>\<open>s.split(sep)\<close> for a separator of one code unit: never an empty array.\<close>

fun js_split :: "char \<Rightarrow> string \<Rightarrow> string list" where
  "js_split sep [] = [[]]"
| "js_split sep (c # cs) =
     (if c = sep then [] # js_split sep cs
      else (case js_split sep cs of [] \<Rightarrow> [[c]] | w # ws \<Rightarrow> (c # w) # ws))"

text \<open>
  White space and line terminators of ECMAScript among the code units below 256:
  TAB, LF, VT, FF, CR, SP and NBSP.
\<close>

definition js_whitespace :: "char \<Rightarrow> bool" where
  "js_whitespace c \<longleftrightarrow> c \<in> set [CHR 0x09, CHR 0x0A, CHR 0x0B, CHR 0x0C, CHR 0x0D, CHR 0x20, CHR 0xA0]"

text \<open>\<^verbatim>\<open>s.trim()\<close>\<close>

definition js_trim :: "string \<Rightarrow> string" where
  "js_trim s = rev (dropWhile js_whitespace (rev (dropWhile js_whitespace s)))"

text \<open>
  \<^verbatim>\<open>s.toLowerCase()\<close>: below 256 the letters with a lower case are A to Z and the Latin-1
  capitals 0xC0 to 0xDE without the multiplication sign 0xD7; each maps 32 code units up.
\<close>

definition upper_units :: string where
  "upper_units = ''ABCDEFGHIJKLMNOPQRSTUVWXYZ'' @
     [CHR 0xC0, CHR 0xC1, CHR 0xC2, CHR 0xC3, CHR 0xC4, CHR 0xC5, CHR 0xC6, CHR 0xC7,
      CHR 0xC8, CHR 0xC9, CHR 0xCA, CHR 0xCB, CHR 0xCC, CHR 0xCD, CHR 0xCE, CHR 0xCF,
      CHR 0xD0, CHR 0xD1, CHR 0xD2, CHR 0xD3, CHR 0xD4, CHR 0xD5, CHR 0xD6,
      CHR 0xD8, CHR 0xD9, CHR 0xDA, CHR 0xDB, CHR 0xDC, CHR 0xDD, CHR 0xDE]"

definition lower_units :: string where
  "lower_units = ''abcdefghijklmnopqrstuvwxyz'' @
     [CHR 0xE0, CHR 0xE1, CHR 0xE2, CHR 0xE3, CHR 0xE4, CHR 0xE5, CHR 0xE6, CHR 0xE7,
      CHR 0xE8, CHR 0xE9, CHR 0xEA, CHR 0xEB, CHR 0xEC, CHR 0xED, CHR 0xEE, CHR 0xEF,
      CHR 0xF0, CHR 0xF1, CHR 0xF2, CHR 0xF3, CHR 0xF4, CHR 0xF5, CHR 0xF6,
      CHR 0xF8, CHR 0xF9, CHR 0xFA, CHR 0xFB, CHR 0xFC, CHR 0xFD, CHR 0xFE]"

definition lower_unit :: "char \<Rightarrow> char" where
  "lower_unit c = (case map_of (zip upper_units lower_units) c of None \<Rightarrow> c | Some l \<Rightarrow> l)"

definition toLowerCase :: "string \<Rightarrow> string" where
  "toLowerCase s = map lower_unit s"

text \<open>\<^verbatim>\<open>hay.includes(needle)\<close>: the needle occurs at some position of the hay.\<close>

fun js_includes :: "string \<Rightarrow> string \<Rightarrow> bool" where
  "js_includes [] needle \<longleftrightarrow> needle = []"
| "js_includes (c # cs) needle \<longleftrightarrow> prefix needle (c # cs) \<or> js_includes cs needle"

text \<open>
  \<^verbatim>\<open>JSON.stringify\<close> of an array of strings: each string quoted, with the escapes of
  QuoteJSONString, joined by commas inside brackets.
\<close>

definition hex_digit :: "nat \<Rightarrow> char" where
  "hex_digit n = ''0123456789abcdef'' ! (n mod 16)"

definition quote_unit :: "char \<Rightarrow> string" where
  "quote_unit c =
     (if c = CHR 0x08 then [CHR 0x5C, CHR ''b'']
      else if c = CHR 0x09 then [CHR 0x5C, CHR ''t'']
      else if c = CHR 0x0A then [CHR 0x5C, CHR ''n'']
      else if c = CHR 0x0C then [CHR 0x5C, CHR ''f'']
      else if c = CHR 0x0D then [CHR 0x5C, CHR ''r'']
      else if c = CHR 0x22 then [CHR 0x5C, CHR 0x22]
      else if c = CHR 0x5C then [CHR 0x5C, CHR 0x5C]
      else if (of_char c :: nat) < 32
        then [CHR 0x5C, CHR ''u'', CHR ''0'', CHR ''0'',
              hex_digit (of_char c div 16), hex_digit (of_char c)]
      else [c])"

definition QuoteJSONString :: "string \<Rightarrow> string" where
  "QuoteJSONString s = [CHR 0x22] @ concat (map quote_unit s) @ [CHR 0x22]"

fun join_commas :: "string list \<Rightarrow> string" where
  "join_commas [] = []"
| "join_commas [s] = s"
| "join_commas (s # t # ts) = s @ '','' @ join_commas (t # ts)"

definition JSON_stringify :: "string list \<Rightarrow> string" where
  "JSON_stringify xs = ''['' @ join_commas (map QuoteJSONString xs) @ '']''"

section \<open>The search session (App)\<close>

text \<open>The filters of a search, as \<^verbatim>\<open>SearchFilters\<close> and \<^verbatim>\<open>SearchState['filters']\<close> declare them.\<close>

record SearchFilters =
  category :: "string option"
  dateRange :: "string option"
  documentType :: "string option"

text \<open>
  \<^verbatim>\<open>SearchState\<close>. The field \<open>sortBy\<close> is declared as one of three literals, but the
  cast in \<^verbatim>\<open>handleRefine\<close> stores whatever it is given, a string or \<^verbatim>\<open>undefined\<close>.
\<close>

record SearchState =
  query :: string
  projectId :: "string option"
  filters :: SearchFilters
  sortBy :: "string option"

text \<open>
  \<^verbatim>\<open>SearchRow\<close>, a row of the backend's answer (the field \<^verbatim>\<open>category\<close> of a row is
  \<open>row_category\<close> here, the filters own the name). The document type is a string, as
  the comparator's method call on it needs; the absent type is the empty string. The score
  is a number between 0 and 1; the sign of a difference of two such numbers is exact.
\<close>

record SearchRow =
  document_id :: string
  title :: string
  snippet :: "string option"
  score :: real
  doc_type :: string
  row_category :: "string option"
  date_modified :: "string option"

text \<open>The request handed to \<^verbatim>\<open>search\<close>.\<close>

record search_request =
  req_query :: string
  project_id :: "string option"
  top_k :: nat
  probes :: nat

text \<open>
  How the awaited call ends: it resolves with rows, or it rejects with a thrown value that
  is an \<^verbatim>\<open>Error\<close> with a message, or something else.
\<close>

datatype thrown = Error string | NotAnError

datatype outcome = Resolved "SearchRow list" | Rejected thrown

datatype view_mode = SearchMode | ChatMode

text \<open>
  The state of \<^verbatim>\<open>App\<close>: its six state variables, the browser's \<^verbatim>\<open>localStorage\<close>, and
  the requests sent to the backend so far.
\<close>

record app_state =
  rows :: "SearchRow list"
  loading :: bool
  mode :: view_mode
  searchState :: SearchState
  recentSearches :: "string list"
  error :: "string option"
  localStorage :: "string \<rightharpoonup> string"
  requests :: "search_request list"

definition initial_app :: app_state where
  "initial_app =
     \<lparr>rows = [], loading = False, mode = SearchMode,
      searchState = \<lparr>query = [], projectId = None,
        filters = \<lparr>category = None, dateRange = None, documentType = None\<rparr>,
        sortBy = Some ''relevance''\<rparr>,
      recentSearches = [], error = None, localStorage = Map.empty, requests = []\<rparr>"

text \<open>\<^verbatim>\<open>updateRecentSearches\<close>\<close>

definition updateRecentSearches :: "string \<Rightarrow> app_state \<Rightarrow> app_state" where
  "updateRecentSearches query' s =
     (let updated = take 5 (query' # filter (\<lambda>q. q \<noteq> query') (recentSearches s))
      in s\<lparr>recentSearches := updated,
            localStorage := (localStorage s)(''recentSearches'' \<mapsto> JSON_stringify updated)\<rparr>)"

text \<open>
  \<^verbatim>\<open>handleSearch\<close> up to its \<^verbatim>\<open>await\<close>: the flags, the search state (an override of the
  filters, when one is given, takes the place of the filters), and the request.
\<close>

definition handleSearch_begin ::
  "string \<Rightarrow> string option \<Rightarrow> SearchFilters option \<Rightarrow> app_state \<Rightarrow> app_state" where
  "handleSearch_begin query' projectId' filters' s =
     s\<lparr>loading := True, error := None,
       searchState := (searchState s)\<lparr>query := query', projectId := projectId',
         filters := (case filters' of Some f \<Rightarrow> f | None \<Rightarrow> filters (searchState s))\<rparr>,
       requests := requests s @
         [\<lparr>req_query = query', project_id = projectId', top_k = 12, probes = 10\<rparr>]\<rparr>"

definition fallback_message :: string where
  "fallback_message = ''Error al realizar la b'' @ [CHR 0xFA] @ ''squeda''"

definition error_message :: "thrown \<Rightarrow> string" where
  "error_message err = (case err of Error message \<Rightarrow> message | NotAnError \<Rightarrow> fallback_message)"

text \<open>\<^verbatim>\<open>handleSearch\<close> from the \<^verbatim>\<open>await\<close> on: the try, the catch and the finally.\<close>

definition handleSearch_settle :: "string \<Rightarrow> outcome \<Rightarrow> app_state \<Rightarrow> app_state" where
  "handleSearch_settle query' out s =
     (case out of
        Resolved data \<Rightarrow> updateRecentSearches query' (s\<lparr>rows := data\<rparr>)
      | Rejected err \<Rightarrow> s\<lparr>error := Some (error_message err), rows := []\<rparr>)
     \<lparr>loading := False\<rparr>"

definition handleSearch ::
  "string \<Rightarrow> string option \<Rightarrow> SearchFilters option \<Rightarrow> outcome \<Rightarrow> app_state \<Rightarrow> app_state" where
  "handleSearch query' projectId' filters' out s =
     handleSearch_settle query' out (handleSearch_begin query' projectId' filters' s)"

text \<open>
  The object spread \<^verbatim>\<open>{ ...prev.filters, ...parsed }\<close> on the keys of \<^verbatim>\<open>SearchFilters\<close>.
\<close>

definition spread_filters :: "SearchFilters \<Rightarrow> SearchFilters \<Rightarrow> SearchFilters" where
  "spread_filters old new =
     \<lparr>category = (case category new of Some v \<Rightarrow> Some v | None \<Rightarrow> category old),
      dateRange = (case dateRange new of Some v \<Rightarrow> Some v | None \<Rightarrow> dateRange old),
      documentType = (case documentType new of Some v \<Rightarrow> Some v | None \<Rightarrow> documentType old)\<rparr>"

datatype js_error = SyntaxError | TypeError

text \<open>
  \<^verbatim>\<open>handleRefine\<close>. \<^verbatim>\<open>JSON.parse\<close> is the platform's: \<open>JSON_parse text\<close> is \<open>None\<close> where
  it throws a SyntaxError, and otherwise the value it returns, read at the keys of
  \<^verbatim>\<open>SearchFilters\<close>. An error thrown by the state update is the result \<open>Inl\<close>. The search
  of the default case ends as \<open>out\<close> says.
\<close>

definition handleRefine ::
  "(string \<Rightarrow> SearchFilters option) \<Rightarrow> outcome \<Rightarrow> string \<Rightarrow> app_state \<Rightarrow> js_error + app_state" where
  "handleRefine JSON_parse out refinement s =
     (case js_split CHR '':'' refinement of
        [] \<Rightarrow> Inr (handleSearch refinement None None out s)
      | type # rest \<Rightarrow>
          (let value = (case rest of [] \<Rightarrow> None | v # _ \<Rightarrow> Some v) in
           if type = ''sort'' then
             Inr (s\<lparr>searchState := (searchState s)\<lparr>sortBy := value\<rparr>\<rparr>)
           else if type = ''filter'' then
             (case JSON_parse (case value of None \<Rightarrow> ''undefined'' | Some v \<Rightarrow> v) of
                None \<Rightarrow> Inl SyntaxError
              | Some parsed \<Rightarrow>
                  Inr (s\<lparr>searchState := (searchState s)
                         \<lparr>filters := spread_filters (filters (searchState s)) parsed\<rparr>\<rparr>))
           else Inr (handleSearch refinement None None out s)))"

text \<open>
  \<^verbatim>\<open>handleSubmit\<close> of the search bar, with \<^verbatim>\<open>onSubmit\<close> bound to \<^verbatim>\<open>handleSearch\<close> as \<^verbatim>\<open>App\<close>
  binds it. The bar's \<open>q\<close>, \<open>project\<close> and \<open>filters\<close> are arguments; its
  \<open>showSuggestions\<close> flag is paired with the state of \<^verbatim>\<open>App\<close>.
\<close>

definition handleSubmit ::
  "string \<Rightarrow> string \<Rightarrow> SearchFilters \<Rightarrow> outcome \<Rightarrow> bool \<times> app_state \<Rightarrow> bool \<times> app_state" where
  "handleSubmit q project filters' out st =
     (case st of (showSuggestions, s) \<Rightarrow>
        if js_trim q \<noteq> [] then
          (False,
           handleSearch q (if project = [] then None else Some project) (Some filters') out s)
        else (showSuggestions, s))"

text \<open>A run of submits, each with the way its backend call ends.\<close>

type_synonym submit = "string \<times> string option \<times> SearchFilters option \<times> outcome"

fun submits :: "submit list \<Rightarrow> app_state \<Rightarrow> app_state" where
  "submits [] s = s"
| "submits ((q, p, fo, out) # es) s = submits es (handleSearch q p fo out s)"

text \<open>
  A stand-in for \<^verbatim>\<open>JSON.parse\<close> in concrete runs: it knows two texts. The runs below hand
  it no text on which it differs from the platform's.
\<close>

definition JSON_parse_sample :: "string \<Rightarrow> SearchFilters option" where
  \<open>JSON_parse_sample txt =
     (if txt = ''{"category":"Planos"}''
        then Some \<lparr>category = Some ''Planos'', dateRange = None, documentType = None\<rparr>
      else if txt = ''{}''
        then Some \<lparr>category = None, dateRange = None, documentType = None\<rparr>
      else None)\<close>

section \<open>The suggestions of the search bar\<close>

datatype suggestion_type = Recent | Popular | Category

text \<open>
  \<^verbatim>\<open>SearchSuggestion\<close> (its fields \<^verbatim>\<open>text\<close> and \<^verbatim>\<open>type\<close> are \<open>sug_text\<close> and \<open>sug_type\<close>).
  The two icons are emoji outside the code units below 256 and are never inspected; they
  are kept as their UTF-8 bytes.
\<close>

record SearchSuggestion =
  sug_text :: string
  sug_type :: suggestion_type
  icon :: "string option"

definition clock_icon :: string where
  "clock_icon = [CHR 0xF0, CHR 0x9F, CHR 0x95, CHR 0x92]"

definition folder_icon :: string where
  "folder_icon = [CHR 0xF0, CHR 0x9F, CHR 0x93, CHR 0x81]"

text \<open>
  \<^verbatim>\<open>generateSuggestions\<close>: the list it hands to \<^verbatim>\<open>setSuggestions\<close>, from the bar's \<open>q\<close> and
  the two props.
\<close>

definition generateSuggestions :: "string \<Rightarrow> string list \<Rightarrow> string list \<Rightarrow> SearchSuggestion list" where
  "generateSuggestions q recents categories =
     (let allSuggestions =
        map (\<lambda>search. \<lparr>sug_text = search, sug_type = Recent, icon = Some clock_icon\<rparr>)
          (take 3 recents) @
        map (\<lambda>cat. \<lparr>sug_text = cat, sug_type = Category, icon = Some folder_icon\<rparr>)
          categories
      in if q \<noteq> [] then
           filter (\<lambda>sug. js_includes (toLowerCase (sug_text sug)) (toLowerCase q)) allSuggestions
         else allSuggestions)"

section \<open>The result list\<close>

text \<open>
  \<^verbatim>\<open>new Date(d || '').getTime()\<close>, \<open>None\<close> for NaN. The empty string is an invalid date;
  what a non-empty string parses to is the platform's \<open>Date_parse\<close>.
\<close>

definition Date_getTime :: "(string \<Rightarrow> int option) \<Rightarrow> string option \<Rightarrow> int option" where
  "Date_getTime Date_parse d =
     (let text = (case d of None \<Rightarrow> [] | Some t \<Rightarrow> t)
      in if text = [] then None else Date_parse text)"

text \<open>
  The comparator handed to \<^verbatim>\<open>sort\<close>; its number is \<open>None\<close> when it is NaN. The prop
  \<open>sortBy\<close> defaults to relevance; \<open>localeCompare\<close> is the platform's collation.
\<close>

definition compare_rows ::
  "(string \<Rightarrow> int option) \<Rightarrow> (string \<Rightarrow> string \<Rightarrow> int) \<Rightarrow> string option \<Rightarrow>
     SearchRow \<Rightarrow> SearchRow \<Rightarrow> real option" where
  "compare_rows Date_parse localeCompare sortBy' a b =
     (let key = (case sortBy' of None \<Rightarrow> ''relevance'' | Some k \<Rightarrow> k) in
      if key = ''date'' then
        (case (Date_getTime Date_parse (date_modified b), Date_getTime Date_parse (date_modified a)) of
           (Some tb, Some ta) \<Rightarrow> Some (real_of_int (tb - ta))
         | _ \<Rightarrow> None)
      else if key = ''type'' then Some (real_of_int (localeCompare (doc_type a) (doc_type b)))
      else Some (score b - score a))"

text \<open>SortCompare of \<^verbatim>\<open>Array.prototype.sort\<close>: a NaN from the comparator counts as +0.\<close>

definition SortCompare :: "('a \<Rightarrow> 'a \<Rightarrow> real option) \<Rightarrow> 'a \<Rightarrow> 'a \<Rightarrow> real" where
  "SortCompare comparefn x y = (case comparefn x y of None \<Rightarrow> 0 | Some v \<Rightarrow> v)"

text \<open>
  \<^verbatim>\<open>Array.prototype.sort\<close>. With a consistent comparator every engine returns the one stable
  sorted array; with an inconsistent one (a NaN among the results) the order is the
  engine's. The model is the sort of V8 (Node, Chrome) for an array of fewer than 64
  elements, which the rows of one answer are (the request asks for 12): the leading run
  is counted, and reversed when it descends strictly, and every later element is put
  into the sorted front by a binary search. (From 64 elements on V8 merges several such
  runs; for a consistent comparator the result is the same.)
\<close>

text \<open>How many elements after \<open>previousElement\<close> continue the run.\<close>

fun extend_run :: "('a \<Rightarrow> 'a \<Rightarrow> real option) \<Rightarrow> bool \<Rightarrow> 'a \<Rightarrow> 'a list \<Rightarrow> nat" where
  "extend_run comparefn isDescending previousElement [] = 0"
| "extend_run comparefn isDescending previousElement (currentElement # rest) =
     (if (if isDescending then SortCompare comparefn currentElement previousElement \<ge> 0
          else SortCompare comparefn currentElement previousElement < 0)
      then 0
      else Suc (extend_run comparefn isDescending currentElement rest))"

text \<open>The length of the leading run, and the array with a descending run reversed.\<close>

definition CountAndMakeRun :: "('a \<Rightarrow> 'a \<Rightarrow> real option) \<Rightarrow> 'a list \<Rightarrow> nat \<times> 'a list" where
  "CountAndMakeRun comparefn work =
     (case work of
        elementHigh # elementLow # rest \<Rightarrow>
          (let isDescending = (SortCompare comparefn elementLow elementHigh < 0);
               runLength = 2 + extend_run comparefn isDescending elementLow rest
           in (runLength,
               if isDescending then rev (take runLength work) @ drop runLength work
               else work))
      | _ \<Rightarrow> (length work, work))"

text \<open>The binary search of the insertion: where the pivot belongs in \<open>work\<close> between
  \<open>left\<close> and \<open>right\<close>.\<close>

function insertion_point ::
  "('a \<Rightarrow> 'a \<Rightarrow> real option) \<Rightarrow> 'a \<Rightarrow> 'a list \<Rightarrow> nat \<Rightarrow> nat \<Rightarrow> nat" where
  "insertion_point comparefn pivot work left right =
     (if left < right then
        (if SortCompare comparefn pivot (work ! (left + (right - left) div 2)) < 0
         then insertion_point comparefn pivot work left (left + (right - left) div 2)
         else insertion_point comparefn pivot work (left + (right - left) div 2 + 1) right)
      else left)"
  by pat_completeness auto
termination
  by (relation "measure (\<lambda>(comparefn, pivot, work, left, right). right - left)") auto

declare insertion_point.simps [simp del]

definition binary_insert :: "('a \<Rightarrow> 'a \<Rightarrow> real option) \<Rightarrow> 'a list \<Rightarrow> 'a \<Rightarrow> 'a list" where
  "binary_insert comparefn front pivot =
     (let left = insertion_point comparefn pivot front 0 (length front)
      in take left front @ pivot # drop left front)"

definition BinaryInsertionSort ::
  "('a \<Rightarrow> 'a \<Rightarrow> real option) \<Rightarrow> 'a list \<Rightarrow> 'a list \<Rightarrow> 'a list" where
  "BinaryInsertionSort comparefn front rest = foldl (binary_insert comparefn) front rest"

definition Array_sort :: "('a \<Rightarrow> 'a \<Rightarrow> real option) \<Rightarrow> 'a list \<Rightarrow> 'a list" where
  "Array_sort comparefn xs =
     (if length xs < 2 then xs
      else (case CountAndMakeRun comparefn xs of
              (runLength, work) \<Rightarrow>
                BinaryInsertionSort comparefn (take runLength work) (drop runLength work)))"

text \<open>
  The grouping \<^verbatim>\<open>reduce\<close>. Its accumulator is a plain object: the own properties are an
  association list in insertion order, and a key that is not an own property is looked up
  in \<^verbatim>\<open>Object.prototype\<close>, whose properties are functions (or, for \<^verbatim>\<open>__proto__\<close>, the
  prototype itself): truthy values without a \<^verbatim>\<open>push\<close>. The order in which the object
  is enumerated later is not modelled.
\<close>

definition Object_prototype_keys :: "string list" where
  "Object_prototype_keys =
     [''constructor'', ''__defineGetter__'', ''__defineSetter__'', ''hasOwnProperty'',
      ''__lookupGetter__'', ''__lookupSetter__'', ''isPrototypeOf'', ''propertyIsEnumerable'',
      ''toString'', ''valueOf'', ''__proto__'', ''toLocaleString'']"

type_synonym groups = "(string \<times> SearchRow list) list"

definition group_key :: "SearchRow \<Rightarrow> string" where
  "group_key row = (if doc_type row = [] then ''Otros'' else doc_type row)"

definition group_row :: "groups \<Rightarrow> SearchRow \<Rightarrow> js_error + groups" where
  "group_row acc row =
     (let key = group_key row in
      case map_of acc key of
        Some _ \<Rightarrow> Inr (map (\<lambda>(k, members). if k = key then (k, members @ [row]) else (k, members)) acc)
      | None \<Rightarrow>
          if key \<in> set Object_prototype_keys then Inl TypeError
          else Inr (acc @ [(key, [row])]))"

fun reduce_rows :: "groups \<Rightarrow> SearchRow list \<Rightarrow> js_error + groups" where
  "reduce_rows acc [] = Inr acc"
| "reduce_rows acc (row # rest) =
     (case group_row acc row of Inl e \<Rightarrow> Inl e | Inr acc' \<Rightarrow> reduce_rows acc' rest)"

record ResultsList_state =
  sortedRows :: "SearchRow list"
  activeFilters :: "string set"
  groupedResults :: groups

text \<open>
  The effect of \<^verbatim>\<open>ResultsList\<close> on \<open>rows\<close> and \<open>sortBy\<close>. The spread \<^verbatim>\<open>[...rows]\<close> is a new
  array, so the sort works on it and the prop \<open>rows\<close> stays as it is.
\<close>

definition organize_effect ::
  "(string \<Rightarrow> int option) \<Rightarrow> (string \<Rightarrow> string \<Rightarrow> int) \<Rightarrow> SearchRow list \<Rightarrow> string option \<Rightarrow>
     ResultsList_state \<Rightarrow> js_error + ResultsList_state" where
  "organize_effect Date_parse localeCompare rows' sortBy' st =
     (let processedRows = Array_sort (compare_rows Date_parse localeCompare sortBy') rows' in
      case reduce_rows [] processedRows of
        Inl e \<Rightarrow> Inl e
      | Inr grouped \<Rightarrow> Inr (st\<lparr>groupedResults := grouped, sortedRows := processedRows\<rparr>))"

text \<open>The comparator orders the elements of a set by a key.\<close>

definition orders_by :: "('a \<Rightarrow> 'a \<Rightarrow> real option) \<Rightarrow> ('a \<Rightarrow> 'b::linorder) \<Rightarrow> 'a set \<Rightarrow> bool" where
  "orders_by comparefn k A \<longleftrightarrow>
     (\<forall>x y. x \<in> A \<and> y \<in> A \<longrightarrow> (SortCompare comparefn x y < 0 \<longleftrightarrow> k x < k y))"

text \<open>A list is the stable sort of another by a key.\<close>

definition stable_sorted :: "('a \<Rightarrow> 'b::linorder) \<Rightarrow> 'a list \<Rightarrow> 'a list \<Rightarrow> bool" where
  "stable_sorted k orig ys \<longleftrightarrow>
     mset ys = mset orig \<and> sorted (map k ys) \<and>
     (\<forall>v. filter (\<lambda>x. k x = v) ys = filter (\<lambda>x. k x = v) orig)"

text \<open>
  What the grouping has built after the rows \<open>seen\<close>: one own property for each key
  met, holding the rows of that key in the order met.
\<close>

definition grouped_so_far :: "groups \<Rightarrow> SearchRow list \<Rightarrow> bool" where
  "grouped_so_far acc seen \<longleftrightarrow>
     distinct (map fst acc) \<and>
     (\<forall>k. map_of acc k =
        (if k \<in> group_key ` set seen then Some (filter (\<lambda>r. group_key r = k) seen) else None))"

text \<open>
  The candidate pool as the design words it: up to three of the most recent searches, as
  recent suggestions, followed by every category, as category suggestions.
\<close>

definition suggestion_pool :: "string list \<Rightarrow> string list \<Rightarrow> SearchSuggestion list" where
  "suggestion_pool recents categories =
     map (\<lambda>t. \<lparr>sug_text = t, sug_type = Recent, icon = Some clock_icon\<rparr>) (take 3 recents) @
     map (\<lambda>t. \<lparr>sug_text = t, sug_type = Category, icon = Some folder_icon\<rparr>) categories"

section \<open>Facts about the platform functions\<close>

lemma js_split_unfold:
  "js_split sep s =
     takeWhile (\<lambda>c. c \<noteq> sep) s #
       (case dropWhile (\<lambda>c. c \<noteq> sep) s of [] \<Rightarrow> [] | _ # r \<Rightarrow> js_split sep r)"
  by (induction s) (auto split: list.splits)

lemma all_dropWhile_iff: "(\<forall>x\<in>set (dropWhile P xs). P x) \<longleftrightarrow> (\<forall>x\<in>set xs. P x)"
  by (induction xs) auto

lemma js_trim_empty_iff: "js_trim q = [] \<longleftrightarrow> (\<forall>c\<in>set q. js_whitespace c)"
  by (simp add: js_trim_def dropWhile_eq_Nil_conv all_dropWhile_iff)

lemma js_includes_iff_sublist: "js_includes hay needle \<longleftrightarrow> sublist needle hay"
  by (induction hay) (auto simp: sublist_Cons_right)

lemma js_includes_iff:
  "js_includes hay needle \<longleftrightarrow> (\<exists>before after. hay = before @ needle @ after)"
  by (simp add: js_includes_iff_sublist sublist_def)

section \<open>The refinement commands\<close>

lemma handleRefine_filter:
  "handleRefine JSON_parse out (''filter:'' @ v) s =
     (case JSON_parse (takeWhile (\<lambda>c. c \<noteq> CHR '':'') v) of
        None \<Rightarrow> Inl SyntaxError
      | Some parsed \<Rightarrow>
          Inr (s\<lparr>searchState := (searchState s)
                 \<lparr>filters := spread_filters (filters (searchState s)) parsed\<rparr>\<rparr>))"
  by (simp add: handleRefine_def js_split_unfold[of _ v] split: list.splits)

lemma spread_filters_keeps_dateRange:
  "dateRange new = None \<Longrightarrow> dateRange (spread_filters old new) = dateRange old"
  by (simp add: spread_filters_def)

text \<open>
  C1. The command is split at every colon and the second piece alone is the payload. For
  \<^verbatim>\<open>filter:{"category":"Planos"}\<close> the text handed to \<^verbatim>\<open>JSON.parse\<close> is \<^verbatim>\<open>{"category"\<close>, which
  is not JSON: the update throws, and no category is merged.
\<close>

theorem handleRefine_filter_payload_cut:
  \<open>handleRefine JSON_parse out ''filter:{"category":"Planos"}'' s =
     (case JSON_parse ''{"category"'' of
        None \<Rightarrow> Inl SyntaxError
      | Some parsed \<Rightarrow>
          Inr (s\<lparr>searchState := (searchState s)
                 \<lparr>filters := spread_filters (filters (searchState s)) parsed\<rparr>\<rparr>))
   \<and> JSON_parse_sample ''{"category":"Planos"}'' =
       Some \<lparr>category = Some ''Planos'', dateRange = None, documentType = None\<rparr>
   \<and> handleRefine JSON_parse_sample out ''filter:{"category":"Planos"}'' s = Inl SyntaxError\<close>
  by (simp add: handleRefine_def JSON_parse_sample_def)

lemma handleRefine_sort:
  "handleRefine JSON_parse out (''sort:'' @ v) s =
     Inr (s\<lparr>searchState := (searchState s)
            \<lparr>sortBy := Some (takeWhile (\<lambda>c. c \<noteq> CHR '':'') v)\<rparr>\<rparr>)"
  by (simp add: handleRefine_def js_split_unfold[of _ v] split: list.splits)

text \<open>
  C2. A payload that fails to parse is not ignored. \<^verbatim>\<open>sort:bogus\<close> stores \<^verbatim>\<open>bogus\<close> as the
  sort key, outside the three values the field is declared to hold, and the bare command
  \<^verbatim>\<open>sort\<close> stores \<^verbatim>\<open>undefined\<close>; the state is not what it was. For \<^verbatim>\<open>filter:{bad\<close> the text
  \<^verbatim>\<open>{bad\<close> goes to \<^verbatim>\<open>JSON.parse\<close>, which throws: the error leaves the state update uncaught.
\<close>

theorem handleRefine_parse_failures_not_ignored:
  "handleRefine JSON_parse out ''sort:bogus'' s =
     Inr (s\<lparr>searchState := (searchState s)\<lparr>sortBy := Some ''bogus''\<rparr>\<rparr>)
   \<and> handleRefine JSON_parse out ''sort'' s =
       Inr (s\<lparr>searchState := (searchState s)\<lparr>sortBy := None\<rparr>\<rparr>)
   \<and> handleRefine JSON_parse_sample (Resolved []) ''sort:bogus'' initial_app \<noteq> Inr initial_app
   \<and> handleRefine JSON_parse_sample (Resolved []) ''sort'' initial_app \<noteq> Inr initial_app
   \<and> handleRefine JSON_parse out ''filter:{bad'' s =
       (case JSON_parse ''{bad'' of
          None \<Rightarrow> Inl SyntaxError
        | Some parsed \<Rightarrow>
            Inr (s\<lparr>searchState := (searchState s)
                   \<lparr>filters := spread_filters (filters (searchState s)) parsed\<rparr>\<rparr>))
   \<and> JSON_parse_sample ''{bad'' = None
   \<and> handleRefine JSON_parse_sample out ''filter:{bad'' s = Inl SyntaxError"
  by (simp add: handleRefine_def JSON_parse_sample_def initial_app_def)

text \<open>
  C3. There is no \<open>load\<close> case: \<^verbatim>\<open>load:more\<close> falls to the default and is searched for as
  a free text, with a request whose query is \<^verbatim>\<open>load:more\<close>.
\<close>

theorem handleRefine_load_more_is_a_search:
  "handleRefine JSON_parse out ''load:more'' s = Inr (handleSearch ''load:more'' None None out s)
   \<and> requests (handleSearch ''load:more'' None None out s) =
       requests s @ [\<lparr>req_query = ''load:more'', project_id = None, top_k = 12, probes = 10\<rparr>]
   \<and> query (searchState (handleSearch ''load:more'' None None out s)) = ''load:more''"
  by (simp add: handleRefine_def handleSearch_def handleSearch_begin_def
      handleSearch_settle_def updateRecentSearches_def Let_def split: outcome.splits)

section \<open>Submitting a search\<close>

lemma searchState_updateRecentSearches:
  "searchState (updateRecentSearches q s) = searchState s"
  by (simp add: updateRecentSearches_def Let_def)

lemma searchState_settle:
  "searchState (handleSearch_settle q out s) = searchState s"
  by (simp add: handleSearch_settle_def searchState_updateRecentSearches split: outcome.splits)

lemma filters_handleSearch:
  "filters (searchState (handleSearch q p fo out s)) =
     (case fo of Some f \<Rightarrow> f | None \<Rightarrow> filters (searchState s))"
  by (simp add: handleSearch_def searchState_settle handleSearch_begin_def)

text \<open>
  C4, as the code has it. A filter override that is given takes the place of the whole
  filter map (\<^verbatim>\<open>filters || prev.filters\<close>); without one the filters stay. The search bar
  always gives its own filters, so an accepted submit ends with exactly those.
\<close>

theorem submit_replaces_filters:
  "filters (searchState (handleSearch q p (Some f) out s)) = f
   \<and> filters (searchState (handleSearch q p None out s)) = filters (searchState s)
   \<and> (js_trim q \<noteq> [] \<longrightarrow>
        filters (searchState (snd (handleSubmit q project f out (sh, s)))) = f)"
  by (simp add: filters_handleSearch handleSubmit_def)

theorem submit_replaces_filters_witness:
  "js_trim ''planos'' \<noteq> []
   \<and> filters (searchState (snd (handleSubmit ''planos'' []
        \<lparr>category = Some ''Planos'', dateRange = None, documentType = None\<rparr>
        (Resolved []) (True, initial_app)))) =
       \<lparr>category = Some ''Planos'', dateRange = None, documentType = None\<rparr>"
  using submit_replaces_filters [of "''planos''" None
      "\<lparr>category = Some ''Planos'', dateRange = None, documentType = None\<rparr>"
      "Resolved []" initial_app "[]" True]
  by (simp add: js_trim_def js_whitespace_def)

text \<open>
  C4 as stated fails: with the date range set to \<open>week\<close>, an accepted submit whose override
  has only a category loses the date range, where a shallow merge keeps it.
\<close>

theorem submit_override_drops_dateRange:
  "dateRange (filters (searchState (snd (handleSubmit ''planos'' []
      \<lparr>category = Some ''Planos'', dateRange = None, documentType = None\<rparr>
      (Resolved [])
      (True, initial_app\<lparr>searchState := (searchState initial_app)
         \<lparr>filters := \<lparr>category = None, dateRange = Some ''week'', documentType = None\<rparr>\<rparr>\<rparr>))))) = None
   \<and> dateRange (spread_filters
        \<lparr>category = None, dateRange = Some ''week'', documentType = None\<rparr>
        \<lparr>category = Some ''Planos'', dateRange = None, documentType = None\<rparr>) = Some ''week''"
  by (simp add: filters_handleSearch handleSubmit_def js_trim_def js_whitespace_def
      spread_filters_def)

text \<open>
  C5. A submit of the search bar whose text trims to the empty string does nothing: the
  state of the session, with its flags, its rows and the requests sent, and the bar's
  suggestion flag are what they were.
\<close>

theorem blank_submit_is_noop:
  "js_trim q = [] \<Longrightarrow> handleSubmit q project f out st = st"
  by (simp add: handleSubmit_def split: prod.splits)

theorem blank_submit_is_noop_witness:
  "js_trim ''   '' = []
   \<and> handleSubmit ''   '' ''p1''
        \<lparr>category = Some ''Planos'', dateRange = None, documentType = None\<rparr>
        (Resolved []) (True, initial_app) = (True, initial_app)"
  using blank_submit_is_noop [of "''   ''" "''p1''"
      "\<lparr>category = Some ''Planos'', dateRange = None, documentType = None\<rparr>"
      "Resolved []" "(True, initial_app)"]
  by (simp add: js_trim_def js_whitespace_def)

text \<open>
  C8. The loading flag is on while the call is awaited, and the error of an earlier search
  is cleared. Once the call has ended, either way, the flag is off. After a rejection the
  rows are empty and the error is the message of the thrown Error, or, for any other
  thrown value, the fixed text \<^verbatim>\<open>Error al realizar la busqueda\<close> (with its accent). After a
  resolved call the rows are the backend's and there is no error.
\<close>

theorem loading_cleared_in_both_outcomes:
  "loading (handleSearch_begin q p fo s) = True
   \<and> loading (handleSearch_settle q out s) = False
   \<and> loading (handleSearch q p fo out s) = False
   \<and> error (handleSearch q p fo (Rejected err) s) = Some (error_message err)
   \<and> rows (handleSearch q p fo (Rejected err) s) = []
   \<and> error (handleSearch q p fo (Rejected (Error m)) s) = Some m
   \<and> error (handleSearch q p fo (Rejected NotAnError) s) =
       Some (''Error al realizar la b'' @ [CHR 0xFA] @ ''squeda'')
   \<and> error (handleSearch_begin q p fo s) = None
   \<and> error (handleSearch q p fo (Resolved d) s) = None
   \<and> rows (handleSearch q p fo (Resolved d) s) = d"
  by (simp add: handleSearch_def handleSearch_settle_def handleSearch_begin_def
      error_message_def fallback_message_def updateRecentSearches_def Let_def)

section \<open>The ledger of recent searches\<close>

lemma recentSearches_updateRecentSearches:
  "recentSearches (updateRecentSearches q s) =
     take 5 (q # filter (\<lambda>x. x \<noteq> q) (recentSearches s))"
  by (simp add: updateRecentSearches_def Let_def)

lemma localStorage_updateRecentSearches:
  "localStorage (updateRecentSearches q s) ''recentSearches'' =
     Some (JSON_stringify (recentSearches (updateRecentSearches q s)))"
  by (simp add: updateRecentSearches_def Let_def)

lemma recentSearches_resolved:
  "recentSearches (handleSearch q p fo (Resolved d) s) =
     take 5 (q # filter (\<lambda>x. x \<noteq> q) (recentSearches s))"
  by (simp add: handleSearch_def handleSearch_settle_def handleSearch_begin_def
      recentSearches_updateRecentSearches)

lemma recentSearches_rejected:
  "recentSearches (handleSearch q p fo (Rejected e) s) = recentSearches s"
  by (simp add: handleSearch_def handleSearch_settle_def handleSearch_begin_def)

lemma localStorage_resolved:
  "localStorage (handleSearch q p fo (Resolved d) s) ''recentSearches'' =
     Some (JSON_stringify (recentSearches (handleSearch q p fo (Resolved d) s)))"
  by (simp add: handleSearch_def handleSearch_settle_def localStorage_updateRecentSearches)

lemma count_front: "count_list (take 5 (q # filter (\<lambda>x. x \<noteq> q) l)) q = 1"
proof -
  have "count_list (take n (filter (\<lambda>x. x \<noteq> q) l)) q = 0" for n
    by (rule count_notin) (auto dest: in_set_takeD)
  from this [of 4] show ?thesis by (simp add: take_Cons')
qed

lemma length_filter_present:
  "q \<in> set l \<Longrightarrow> Suc (length (filter (\<lambda>x. x \<noteq> q) l)) \<le> length l"
  by (induction l) (auto simp: le_SucI)

lemma ledger_bound_step:
  "length (recentSearches s) \<le> 5 \<Longrightarrow> length (recentSearches (handleSearch q p fo out s)) \<le> 5"
  by (cases out) (simp_all add: recentSearches_resolved recentSearches_rejected)

lemma ledger_bound_run:
  "length (recentSearches s) \<le> 5 \<Longrightarrow> length (recentSearches (submits es s)) \<le> 5"
  by (induction es s rule: submits.induct) (simp_all add: ledger_bound_step)

lemma ledger_distinct_step:
  "distinct (recentSearches s) \<Longrightarrow> distinct (recentSearches (handleSearch q p fo out s))"
  by (cases out)
    (auto simp add: recentSearches_resolved recentSearches_rejected take_Cons'
      dest: in_set_takeD)

lemma ledger_distinct_run:
  "distinct (recentSearches s) \<Longrightarrow> distinct (recentSearches (submits es s))"
  by (induction es s rule: submits.induct) (simp_all add: ledger_distinct_step)

lemma submits_append: "submits (es @ fs) s = submits fs (submits es s)"
  by (induction es s rule: submits.induct) simp_all

lemma ledger_front_when_present:
  assumes "q \<in> set l" "distinct l" "length l \<le> 5"
  shows "take 5 (q # filter (\<lambda>x. x \<noteq> q) l) = q # filter (\<lambda>x. x \<noteq> q) l"
    and "mset (q # filter (\<lambda>x. x \<noteq> q) l) = mset l"
proof -
  have "Suc (length (filter (\<lambda>x. x \<noteq> q) l)) \<le> 5"
    using length_filter_present [OF assms(1)] assms(3) by simp
  then show "take 5 (q # filter (\<lambda>x. x \<noteq> q) l) = q # filter (\<lambda>x. x \<noteq> q) l"
    by simp
  have "filter (\<lambda>x. x = q) l = [q]"
    using assms(1,2) by (induction l) (auto simp: filter_empty_conv)
  then have "mset l = mset [q] + mset (filter (\<lambda>x. x \<noteq> q) l)"
    using mset_filter [of "\<lambda>x. x = q" l] multiset_partition [of "mset l" "\<lambda>x. x = q"]
    by simp
  then show "mset (q # filter (\<lambda>x. x \<noteq> q) l) = mset l"
    by simp
qed

text \<open>
  C7. A successful submit, after any run of submits and from any state (the ledger may
  have been loaded from the storage, of any length), leaves as the ledger the submitted
  text followed by the earlier entries that differ from it, exactly as strings, in their
  order, cut to five entries. So the text is at position 0 and occurs once, the ledger
  has at most five entries, and it keeps at most five through every later submit. A
  rejected submit leaves the ledger as it was. Recording a text that is already in the
  ledger does not make it longer; in a ledger without repeats and within the capacity it
  only moves the text to the front. The stored value is the JSON text of the whole ledger.
\<close>

theorem ledger_after_successful_submit:
  "recentSearches (submits (es @ [(q, p, fo, Resolved d)]) s) =
     take 5 (q # filter (\<lambda>x. x \<noteq> q) (recentSearches (submits es s)))
   \<and> recentSearches (submits (es @ [(q, p, fo, Resolved d)]) s) ! 0 = q
   \<and> count_list (recentSearches (submits (es @ [(q, p, fo, Resolved d)]) s)) q = 1
   \<and> length (recentSearches (submits (es @ [(q, p, fo, Resolved d)]) s)) \<le> 5
   \<and> length (recentSearches (submits (es @ [(q, p, fo, Resolved d)] @ fs) s)) \<le> 5
   \<and> recentSearches (handleSearch q p fo (Rejected err) s) = recentSearches s
   \<and> length (recentSearches (submits es initial_app)) \<le> 5
   \<and> distinct (recentSearches (submits es initial_app))
   \<and> (length (recentSearches s) \<le> 5 \<longrightarrow> length (recentSearches (submits es s)) \<le> 5)
   \<and> (distinct (recentSearches s) \<longrightarrow> distinct (recentSearches (submits es s)))
   \<and> (q \<in> set (recentSearches s') \<longrightarrow>
        length (recentSearches (handleSearch q p fo (Resolved d) s')) \<le> length (recentSearches s'))
   \<and> (q \<in> set (recentSearches s') \<and> distinct (recentSearches s')
        \<and> length (recentSearches s') \<le> 5 \<longrightarrow>
        recentSearches (handleSearch q p fo (Resolved d) s') =
          q # filter (\<lambda>x. x \<noteq> q) (recentSearches s')
        \<and> mset (recentSearches (handleSearch q p fo (Resolved d) s')) = mset (recentSearches s'))
   \<and> localStorage (submits (es @ [(q, p, fo, Resolved d)]) s) ''recentSearches'' =
        Some (JSON_stringify (recentSearches (submits (es @ [(q, p, fo, Resolved d)]) s)))
   \<and> recentSearches (handleSearch ''Foo'' None None (Resolved [])
        (initial_app\<lparr>recentSearches := [''foo'', ''Foo'', ''bar'']\<rparr>)) = [''Foo'', ''foo'', ''bar'']"
proof -
  have exact: "recentSearches (submits (es @ [(q, p, fo, Resolved d)]) s) =
      take 5 (q # filter (\<lambda>x. x \<noteq> q) (recentSearches (submits es s)))"
    by (simp add: submits_append recentSearches_resolved)
  have first: "recentSearches (submits (es @ [(q, p, fo, Resolved d)]) s) ! 0 = q"
    unfolding exact by simp
  have once: "count_list (recentSearches (submits (es @ [(q, p, fo, Resolved d)]) s)) q = 1"
    unfolding exact by (rule count_front)
  have bound: "length (recentSearches (submits (es @ [(q, p, fo, Resolved d)]) s)) \<le> 5"
    unfolding exact by simp
  have later: "length (recentSearches (submits (es @ [(q, p, fo, Resolved d)] @ fs) s)) \<le> 5"
    using ledger_bound_run [OF bound, of fs] by (simp add: submits_append)
  have rejected: "recentSearches (handleSearch q p fo (Rejected err) s) = recentSearches s"
    by (rule recentSearches_rejected)
  have from_start: "length (recentSearches (submits es initial_app)) \<le> 5"
    by (rule ledger_bound_run) (simp add: initial_app_def)
  have distinct_start: "distinct (recentSearches (submits es initial_app))"
    by (rule ledger_distinct_run) (simp add: initial_app_def)
  have keeps_bound: "length (recentSearches s) \<le> 5 \<longrightarrow> length (recentSearches (submits es s)) \<le> 5"
    by (simp add: ledger_bound_run)
  have keeps_distinct: "distinct (recentSearches s) \<longrightarrow> distinct (recentSearches (submits es s))"
    by (simp add: ledger_distinct_run)
  have no_growth: "q \<in> set (recentSearches s') \<longrightarrow>
      length (recentSearches (handleSearch q p fo (Resolved d) s')) \<le> length (recentSearches s')"
    using length_filter_present [of q "recentSearches s'"]
    by (auto simp add: recentSearches_resolved)
  have moved: "q \<in> set (recentSearches s') \<and> distinct (recentSearches s')
        \<and> length (recentSearches s') \<le> 5 \<longrightarrow>
      recentSearches (handleSearch q p fo (Resolved d) s') =
        q # filter (\<lambda>x. x \<noteq> q) (recentSearches s')
      \<and> mset (recentSearches (handleSearch q p fo (Resolved d) s')) = mset (recentSearches s')"
  proof (intro impI, elim conjE)
    assume h: "q \<in> set (recentSearches s')" "distinct (recentSearches s')"
      "length (recentSearches s') \<le> 5"
    have "recentSearches (handleSearch q p fo (Resolved d) s') =
        q # filter (\<lambda>x. x \<noteq> q) (recentSearches s')"
      using ledger_front_when_present(1) [OF h] by (simp only: recentSearches_resolved)
    then show "recentSearches (handleSearch q p fo (Resolved d) s') =
        q # filter (\<lambda>x. x \<noteq> q) (recentSearches s')
      \<and> mset (recentSearches (handleSearch q p fo (Resolved d) s')) = mset (recentSearches s')"
      using ledger_front_when_present(2) [OF h] by simp
  qed
  have stored: "localStorage (submits (es @ [(q, p, fo, Resolved d)]) s) ''recentSearches'' =
      Some (JSON_stringify (recentSearches (submits (es @ [(q, p, fo, Resolved d)]) s)))"
    by (simp add: submits_append localStorage_resolved)
  have by_case: "recentSearches (handleSearch ''Foo'' None None (Resolved [])
      (initial_app\<lparr>recentSearches := [''foo'', ''Foo'', ''bar'']\<rparr>)) = [''Foo'', ''foo'', ''bar'']"
    by (simp add: recentSearches_resolved)
  from exact first once bound later rejected from_start distinct_start keeps_bound
    keeps_distinct no_growth moved stored by_case
  show ?thesis by (intro conjI)
qed

theorem ledger_after_successful_submit_witness:
  "''b'' \<in> set (recentSearches (initial_app\<lparr>recentSearches := [''a'', ''b'', ''c'']\<rparr>))
   \<and> distinct (recentSearches (initial_app\<lparr>recentSearches := [''a'', ''b'', ''c'']\<rparr>))
   \<and> length (recentSearches (initial_app\<lparr>recentSearches := [''a'', ''b'', ''c'']\<rparr>)) \<le> 5
   \<and> recentSearches (handleSearch ''b'' None None (Resolved [])
         (initial_app\<lparr>recentSearches := [''a'', ''b'', ''c'']\<rparr>)) = [''b'', ''a'', ''c'']
   \<and> length (recentSearches (handleSearch ''b'' None None (Resolved [])
         (initial_app\<lparr>recentSearches := [''a'', ''b'', ''c'']\<rparr>)))
       \<le> length (recentSearches (initial_app\<lparr>recentSearches := [''a'', ''b'', ''c'']\<rparr>))
   \<and> recentSearches (submits ([(''a'', None, None, Rejected NotAnError)] @
         [(''b'', None, None, Resolved [])])
         (initial_app\<lparr>recentSearches := [''muro'', ''losa'', ''viga'', ''pilar'', ''zapata'', ''techo'', ''dintel'']\<rparr>)) =
       [''b'', ''muro'', ''losa'', ''viga'', ''pilar'']
   \<and> length (recentSearches initial_app) \<le> 5
   \<and> distinct (recentSearches initial_app)
   \<and> length (recentSearches (submits [(''a'', None, None, Rejected NotAnError)] initial_app)) \<le> 5
   \<and> distinct (recentSearches (submits [(''a'', None, None, Rejected NotAnError)] initial_app))"
  using ledger_after_successful_submit [where es = "[(''a'', None, None, Rejected NotAnError)]"
      and q = "''b''" and p = None and fo = None and d = "[]"
      and s = "initial_app\<lparr>recentSearches := [''muro'', ''losa'', ''viga'', ''pilar'', ''zapata'', ''techo'', ''dintel'']\<rparr>"
      and s' = "initial_app\<lparr>recentSearches := [''a'', ''b'', ''c'']\<rparr>"
      and fs = "[]" and err = NotAnError]
  by (simp add: initial_app_def recentSearches_resolved recentSearches_rejected)

section \<open>The suggestion generator\<close>

text \<open>
  C9. The suggestions are the pool (at most three recent searches, then every category)
  when the query is empty, and otherwise the entries of the pool whose lower-cased text
  has the lower-cased query as a substring; they come in the order of the pool.
\<close>

theorem generateSuggestions_filters_pool:
  "generateSuggestions q recents categories =
     (if q = [] then suggestion_pool recents categories
      else filter
        (\<lambda>sug. \<exists>before after. toLowerCase (sug_text sug) = before @ toLowerCase q @ after)
        (suggestion_pool recents categories))
   \<and> subseq (generateSuggestions q recents categories) (suggestion_pool recents categories)
   \<and> map sug_text (suggestion_pool recents categories) = take 3 recents @ categories
   \<and> map sug_type (suggestion_pool recents categories) =
        replicate (min 3 (length recents)) Recent @ replicate (length categories) Category"
proof -
  have eq: "generateSuggestions q recents categories =
     (if q = [] then suggestion_pool recents categories
      else filter
        (\<lambda>sug. \<exists>before after. toLowerCase (sug_text sug) = before @ toLowerCase q @ after)
        (suggestion_pool recents categories))"
    by (simp add: generateSuggestions_def suggestion_pool_def Let_def js_includes_iff)
  have "subseq (generateSuggestions q recents categories) (suggestion_pool recents categories)"
    unfolding eq by simp
  moreover have "map sug_text (suggestion_pool recents categories) = take 3 recents @ categories"
    by (simp add: suggestion_pool_def comp_def)
  moreover have "map sug_type (suggestion_pool recents categories) =
      replicate (min 3 (length recents)) Recent @ replicate (length categories) Category"
    by (simp add: suggestion_pool_def comp_def map_replicate_const min.commute)
  ultimately show ?thesis using eq by simp
qed

section \<open>The result organizer\<close>

subsection \<open>The sort\<close>

lemma mset_take_drop: "mset (take n ys) + mset (drop n ys) = mset ys"
  by (metis append_take_drop_id mset_append)

lemma mset_CountAndMakeRun: "mset (snd (CountAndMakeRun comparefn work)) = mset work"
  by (simp add: CountAndMakeRun_def Let_def mset_take_drop split: list.splits)

lemma mset_binary_insert: "mset (binary_insert comparefn front pivot) = add_mset pivot (mset front)"
proof -
  have "mset (take n front @ pivot # drop n front) = add_mset pivot (mset front)" for n
    by (metis add_mset_add_single append_take_drop_id mset.simps(2) mset_append union_mset_add_mset_right)
  then show ?thesis
    by (simp add: binary_insert_def Let_def)
qed

lemma mset_BinaryInsertionSort:
  "mset (BinaryInsertionSort comparefn front rest) = mset front + mset rest"
  unfolding BinaryInsertionSort_def
  by (induction rest arbitrary: front) (simp_all add: mset_binary_insert)

lemma mset_Array_sort: "mset (Array_sort comparefn xs) = mset xs"
proof (cases "length xs < 2")
  case True
  then show ?thesis by (simp add: Array_sort_def)
next
  case False
  obtain n work where run: "CountAndMakeRun comparefn xs = (n, work)"
    by (cases "CountAndMakeRun comparefn xs")
  then have "mset work = mset xs"
    using mset_CountAndMakeRun [of comparefn xs] by simp
  moreover have "mset (take n work) + mset (drop n work) = mset work"
    by (rule mset_take_drop)
  ultimately show ?thesis
    using False run by (simp add: Array_sort_def mset_BinaryInsertionSort)
qed

lemma orders_byD:
  "orders_by comparefn k A \<Longrightarrow> x \<in> A \<Longrightarrow> y \<in> A \<Longrightarrow>
     (SortCompare comparefn x y < 0 \<longleftrightarrow> k x < k y)"
  by (simp add: orders_by_def)

lemma orders_by_subset: "orders_by comparefn k A \<Longrightarrow> B \<subseteq> A \<Longrightarrow> orders_by comparefn k B"
  by (auto simp: orders_by_def)

lemma insertion_point_bounds:
  fixes k :: "'a \<Rightarrow> 'b::linorder"
  assumes "sorted (map k front)"
    and "orders_by comparefn k (insert pivot (set front))"
    and "left \<le> right" "right \<le> length front"
    and "\<forall>j<left. k (front ! j) \<le> k pivot"
    and "\<forall>j. right \<le> j \<and> j < length front \<longrightarrow> k pivot < k (front ! j)"
  shows "insertion_point comparefn pivot front left right \<le> length front
     \<and> (\<forall>j<insertion_point comparefn pivot front left right. k (front ! j) \<le> k pivot)
     \<and> (\<forall>j. insertion_point comparefn pivot front left right \<le> j \<and> j < length front
           \<longrightarrow> k pivot < k (front ! j))"
  using assms
proof (induction comparefn pivot front left right rule: insertion_point.induct)
  case (1 comparefn pivot work left right)
  let ?mid = "left + (right - left) div 2"
  show ?case
  proof (cases "left < right")
    case False
    then have "insertion_point comparefn pivot work left right = left"
      by (simp add: insertion_point.simps)
    moreover have "left = right" using False "1.prems"(3) by simp
    ultimately show ?thesis using "1.prems" by simp
  next
    case True
    then have mid: "left \<le> ?mid" "?mid < right" by auto
    then have inr: "?mid < length work" using "1.prems"(4) by simp
    have mono: "k (work ! i) \<le> k (work ! j)" if "i \<le> j" "j < length work" for i j
      using sorted_nth_mono [OF "1.prems"(1), of i j] that by simp
    have cmp: "SortCompare comparefn pivot (work ! ?mid) < 0 \<longleftrightarrow> k pivot < k (work ! ?mid)"
      by (rule orders_byD [OF "1.prems"(2)]) (use inr in auto)
    show ?thesis
    proof (cases "SortCompare comparefn pivot (work ! ?mid) < 0")
      case below: True
      have eq: "insertion_point comparefn pivot work left right =
          insertion_point comparefn pivot work left ?mid"
        using True below by (subst insertion_point.simps) simp
      have "\<forall>j. ?mid \<le> j \<and> j < length work \<longrightarrow> k pivot < k (work ! j)"
      proof (intro allI impI)
        fix j assume "?mid \<le> j \<and> j < length work"
        then have "k (work ! ?mid) \<le> k (work ! j)" using mono by blast
        with below cmp show "k pivot < k (work ! j)" by simp
      qed
      then show ?thesis
        unfolding eq
        using "1.IH"(1) [OF True below "1.prems"(1,2) mid(1) _ "1.prems"(5)] inr by simp
    next
      case above: False
      have eq: "insertion_point comparefn pivot work left right =
          insertion_point comparefn pivot work (?mid + 1) right"
        using True above by (subst insertion_point.simps) simp
      have "\<forall>j<?mid + 1. k (work ! j) \<le> k pivot"
      proof (intro allI impI)
        fix j assume "j < ?mid + 1"
        then have "k (work ! j) \<le> k (work ! ?mid)" using mono [of j ?mid] inr by simp
        moreover have "k (work ! ?mid) \<le> k pivot" using above cmp by simp
        ultimately show "k (work ! j) \<le> k pivot" by simp
      qed
      then show ?thesis
        unfolding eq
        using "1.IH"(2) [OF True above "1.prems"(1,2) _ "1.prems"(4) _ "1.prems"(6)] mid by simp
    qed
  qed
qed

lemma stable_sorted_sort_key: "stable_sorted k orig ys \<Longrightarrow> ys = sort_key k orig"
proof -
  assume st: "stable_sorted k orig ys"
  have "sort_key k orig = ys"
  proof (rule properties_for_sort_key)
    show "mset ys = mset orig" using st by (simp add: stable_sorted_def)
    show "sorted (map k ys)" using st by (simp add: stable_sorted_def)
    fix y assume "y \<in> set ys"
    have "(\<lambda>x. k y = k x) = (\<lambda>x. k x = k y)" by auto
    then show "filter (\<lambda>x. k y = k x) ys = filter (\<lambda>x. k y = k x) orig"
      using st by (simp add: stable_sorted_def)
  qed
  then show ?thesis by simp
qed

lemma binary_insert_stable_sorted:
  fixes k :: "'a \<Rightarrow> 'b::linorder"
  assumes st: "stable_sorted k orig front"
    and ord: "orders_by comparefn k (insert pivot (set front))"
  shows "stable_sorted k (orig @ [pivot]) (binary_insert comparefn front pivot)"
proof -
  define i where "i = insertion_point comparefn pivot front 0 (length front)"
  have srt: "sorted (map k front)" using st by (simp add: stable_sorted_def)
  have pt: "i \<le> length front \<and> (\<forall>j<i. k (front ! j) \<le> k pivot)
      \<and> (\<forall>j. i \<le> j \<and> j < length front \<longrightarrow> k pivot < k (front ! j))"
    unfolding i_def by (rule insertion_point_bounds [OF srt ord]) auto
  have before: "k x \<le> k pivot" if "x \<in> set (take i front)" for x
  proof -
    from that obtain j where "j < length (take i front)" "x = take i front ! j"
      by (auto simp: in_set_conv_nth)
    then show ?thesis using pt by simp
  qed
  have after: "k pivot < k x" if "x \<in> set (drop i front)" for x
  proof -
    from that obtain j where j: "j < length (drop i front)" "x = drop i front ! j"
      by (auto simp: in_set_conv_nth)
    then have "x = front ! (i + j)" "i + j < length front" using pt by auto
    then show ?thesis using pt by simp
  qed
  have res: "binary_insert comparefn front pivot = take i front @ pivot # drop i front"
    by (simp add: binary_insert_def i_def Let_def)
  have "sorted (map k (take i front))" "sorted (map k (drop i front))"
    using srt by (simp_all add: sorted_wrt_take sorted_wrt_drop take_map [symmetric] drop_map [symmetric])
  then have sorted': "sorted (map k (take i front @ pivot # drop i front))"
    using before after by (auto simp: sorted_append less_imp_le dest: before after intro: order_trans less_imp_le)
  have none_after: "filter (\<lambda>x. k x = k pivot) (drop i front) = []"
    using after by (fastforce simp: filter_empty_conv)
  have split: "filter P front = filter P (take i front) @ filter P (drop i front)" for P
    by (metis append_take_drop_id filter_append)
  have stable: "filter (\<lambda>x. k x = v) (take i front @ pivot # drop i front) =
      filter (\<lambda>x. k x = v) (orig @ [pivot])" for v
  proof -
    have keep: "filter (\<lambda>x. k x = v) front = filter (\<lambda>x. k x = v) orig"
      using st by (simp add: stable_sorted_def)
    show ?thesis
    proof (cases "k pivot = v")
      case True
      then show ?thesis
        using none_after keep split [of "\<lambda>x. k x = v"] by simp
    next
      case False
      then show ?thesis
        using keep split [of "\<lambda>x. k x = v"] by simp
    qed
  qed
  have "mset (take i front @ pivot # drop i front) = mset (orig @ [pivot])"
    using mset_binary_insert [of comparefn front pivot] st
    by (simp add: res stable_sorted_def)
  then show ?thesis
    using sorted' stable unfolding res stable_sorted_def by blast
qed

lemma BinaryInsertionSort_stable_sorted:
  fixes k :: "'a \<Rightarrow> 'b::linorder"
  assumes "stable_sorted k orig front"
    and "orders_by comparefn k (set front \<union> set rest)"
  shows "stable_sorted k (orig @ rest) (BinaryInsertionSort comparefn front rest)"
  using assms
proof (induction rest arbitrary: front orig)
  case Nil
  then show ?case by (simp add: BinaryInsertionSort_def)
next
  case (Cons pivot rest)
  have "orders_by comparefn k (insert pivot (set front))"
    by (rule orders_by_subset [OF Cons.prems(2)]) auto
  then have step: "stable_sorted k (orig @ [pivot]) (binary_insert comparefn front pivot)"
    by (rule binary_insert_stable_sorted [OF Cons.prems(1)])
  have "set (binary_insert comparefn front pivot) = insert pivot (set front)"
    using mset_binary_insert [of comparefn front pivot]
    by (metis set_mset_add_mset_insert set_mset_mset)
  then have "orders_by comparefn k (set (binary_insert comparefn front pivot) \<union> set rest)"
    using Cons.prems(2) by (simp add: Un_commute insert_commute)
  from Cons.IH [OF step this] show ?case
    by (simp add: BinaryInsertionSort_def)
qed

lemma extend_run_le: "extend_run comparefn isDescending previousElement rest \<le> length rest"
  by (induction rest arbitrary: previousElement) auto

lemma extend_run_ascending:
  fixes k :: "'a \<Rightarrow> 'b::linorder"
  assumes "orders_by comparefn k (insert x (set rest))"
  shows "sorted (map k (x # take (extend_run comparefn False x rest) rest))"
  using assms
proof (induction rest arbitrary: x)
  case Nil
  then show ?case by simp
next
  case (Cons y rest)
  have cmp: "SortCompare comparefn y x < 0 \<longleftrightarrow> k y < k x"
    by (rule orders_byD [OF Cons.prems]) auto
  have "orders_by comparefn k (insert y (set rest))"
    by (rule orders_by_subset [OF Cons.prems]) auto
  then have "sorted (map k (y # take (extend_run comparefn False y rest) rest))"
    by (rule Cons.IH)
  then show ?case
    using cmp by auto
qed

lemma extend_run_descending:
  fixes k :: "'a \<Rightarrow> 'b::linorder"
  assumes "orders_by comparefn k (insert x (set rest))"
  shows "sorted_wrt (\<lambda>a b. b < a) (map k (x # take (extend_run comparefn True x rest) rest))"
  using assms
proof (induction rest arbitrary: x)
  case Nil
  then show ?case by simp
next
  case (Cons y rest)
  have cmp: "SortCompare comparefn y x < 0 \<longleftrightarrow> k y < k x"
    by (rule orders_byD [OF Cons.prems]) auto
  have "orders_by comparefn k (insert y (set rest))"
    by (rule orders_by_subset [OF Cons.prems]) auto
  then have IH: "sorted_wrt (\<lambda>a b. b < a) (map k (y # take (extend_run comparefn True y rest) rest))"
    by (rule Cons.IH)
  show ?case
  proof (cases "SortCompare comparefn y x < 0")
    case True
    then have "k y < k x" using cmp by simp
    then show ?thesis
      using True IH by (auto simp: not_le)
  next
    case False
    then show ?thesis by (simp add: not_less)
  qed
qed

lemma filter_rev_distinct_keys:
  "distinct (map k ys) \<Longrightarrow> filter (\<lambda>x. k x = v) (rev ys) = filter (\<lambda>x. k x = v) ys"
proof (induction ys)
  case Nil
  then show ?case by simp
next
  case (Cons a ys)
  then have IH: "filter (\<lambda>x. k x = v) (rev ys) = filter (\<lambda>x. k x = v) ys" by simp
  show ?case
  proof (cases "k a = v")
    case True
    have "\<forall>x\<in>set ys. k x \<noteq> v"
      using Cons.prems True by (auto simp: image_iff)
    then have "filter (\<lambda>x. k x = v) ys = []"
      by (simp add: filter_empty_conv)
    then show ?thesis using True IH by simp
  next
    case False
    then show ?thesis using IH by simp
  qed
qed

lemma descending_run_reversed:
  fixes k :: "'a \<Rightarrow> 'b::linorder"
  assumes "sorted_wrt (\<lambda>a b. b < a) (map k run)"
  shows "stable_sorted k run (rev run)"
proof -
  have "sorted_wrt (<) (map k (rev run))"
    using assms by (simp add: rev_map [symmetric] sorted_wrt_rev)
  then have "sorted (map k (rev run))" "distinct (map k (rev run))"
    by (simp_all add: strict_sorted_iff)
  then have "sorted (map k (rev run))" "distinct (map k run)"
    by (simp_all add: rev_map [symmetric])
  then show ?thesis
    by (simp add: stable_sorted_def filter_rev_distinct_keys)
qed

lemma CountAndMakeRun_stable_sorted:
  fixes k :: "'a \<Rightarrow> 'b::linorder"
  assumes ord: "orders_by comparefn k (set xs)"
    and run: "CountAndMakeRun comparefn xs = (n, work)"
  shows "stable_sorted k (take n xs) (take n work) \<and> drop n work = drop n xs"
proof (cases xs)
  case Nil
  then show ?thesis using run by (auto simp: CountAndMakeRun_def stable_sorted_def)
next
  case (Cons x0 tail)
  show ?thesis
  proof (cases tail)
    case Nil
    then show ?thesis
      using run Cons by (auto simp: CountAndMakeRun_def stable_sorted_def)
  next
    case (Cons x1 rest)
    with \<open>xs = x0 # tail\<close> have xs: "xs = x0 # x1 # rest" by simp
    have cmp: "SortCompare comparefn x1 x0 < 0 \<longleftrightarrow> k x1 < k x0"
      by (rule orders_byD [OF ord]) (simp_all add: xs)
    have sub: "orders_by comparefn k (insert x1 (set rest))"
      by (rule orders_by_subset [OF ord]) (auto simp: xs)
    show ?thesis
    proof (cases "SortCompare comparefn x1 x0 < 0")
      case False
      define m where "m = extend_run comparefn False x1 rest"
      have n: "n = 2 + m" and work: "work = xs"
        using run False by (auto simp add: CountAndMakeRun_def xs Let_def m_def)
      have "sorted (map k (x1 # take m rest))"
        unfolding m_def by (rule extend_run_ascending [OF sub])
      moreover have "k x0 \<le> k x1"
        using False cmp by simp
      ultimately have "sorted (k x0 # k x1 # map k (take m rest))"
        by (simp only: list.map sorted2 simp_thms)
      then have "sorted (map k (take n xs))"
        by (simp add: n xs)
      then show ?thesis
        by (simp add: work stable_sorted_def)
    next
      case True
      define m where "m = extend_run comparefn True x1 rest"
      have n: "n = 2 + m" and work: "work = rev (take n xs) @ drop n xs"
        using run True by (auto simp add: CountAndMakeRun_def xs Let_def m_def)
      have len: "n \<le> length xs"
        using extend_run_le [of comparefn True x1 rest] by (simp add: n xs m_def)
      have "sorted_wrt (\<lambda>a b. b < a) (map k (x1 # take m rest))"
        unfolding m_def by (rule extend_run_descending [OF sub])
      then have "sorted_wrt (\<lambda>a b. b < a) (map k (take n xs))"
        using True cmp by (auto simp add: n xs)
      then have "stable_sorted k (take n xs) (rev (take n xs))"
        by (rule descending_run_reversed)
      moreover have "take n work = rev (take n xs)" "drop n work = drop n xs"
        using len by (simp_all add: work)
      ultimately show ?thesis by simp
    qed
  qed
qed

text \<open>
  Where the comparator orders the elements by a key, the sort is the stable sort by that key.
\<close>

lemma Array_sort_eq_sort_key:
  fixes k :: "'a \<Rightarrow> 'b::linorder"
  assumes ord: "orders_by comparefn k (set xs)"
  shows "Array_sort comparefn xs = sort_key k xs"
proof (cases "length xs < 2")
  case True
  then have "xs = [] \<or> (\<exists>x. xs = [x])"
    by (cases xs) (auto simp: length_Suc_conv)
  then show ?thesis
    using True by (auto simp: Array_sort_def)
next
  case False
  obtain n work where run: "CountAndMakeRun comparefn xs = (n, work)"
    by (cases "CountAndMakeRun comparefn xs")
  have st: "stable_sorted k (take n xs) (take n work)" and rest: "drop n work = drop n xs"
    using CountAndMakeRun_stable_sorted [OF ord run] by simp_all
  have "set (take n work) = set (take n xs)"
    using st by (metis stable_sorted_def set_mset_mset)
  then have "set (take n work) \<union> set (drop n work) \<subseteq> set xs"
    using rest by (auto dest: in_set_takeD in_set_dropD)
  then have "orders_by comparefn k (set (take n work) \<union> set (drop n work))"
    by (rule orders_by_subset [OF ord])
  then have "stable_sorted k (take n xs @ drop n work)
      (BinaryInsertionSort comparefn (take n work) (drop n work))"
    by (rule BinaryInsertionSort_stable_sorted [OF st])
  then have "stable_sorted k xs (Array_sort comparefn xs)"
    using False run rest by (simp add: Array_sort_def)
  then show ?thesis
    by (rule stable_sorted_sort_key)
qed

lemma relevance_sort:
  "Array_sort (compare_rows Date_parse localeCompare None) rs = sort_key (\<lambda>r. - score r) rs"
  by (rule Array_sort_eq_sort_key) (simp add: orders_by_def SortCompare_def compare_rows_def)

lemma type_sort:
  fixes rank :: "string \<Rightarrow> 'b::linorder"
  assumes "\<And>a b. localeCompare a b < 0 \<longleftrightarrow> rank a < rank b"
  shows "Array_sort (compare_rows Date_parse localeCompare (Some ''type'')) rs =
     sort_key (\<lambda>r. rank (doc_type r)) rs"
  by (rule Array_sort_eq_sort_key)
    (use assms in \<open>simp add: orders_by_def SortCompare_def compare_rows_def\<close>)

lemma date_sort:
  assumes "\<And>r. r \<in> set rs \<Longrightarrow> Date_getTime Date_parse (date_modified r) \<noteq> None"
  shows "Array_sort (compare_rows Date_parse localeCompare (Some ''date'')) rs =
     sort_key (\<lambda>r. - the (Date_getTime Date_parse (date_modified r))) rs"
proof (rule Array_sort_eq_sort_key, unfold orders_by_def, intro allI impI, elim conjE)
  fix x y assume "x \<in> set rs" "y \<in> set rs"
  then obtain tx ty where "Date_getTime Date_parse (date_modified x) = Some tx"
    "Date_getTime Date_parse (date_modified y) = Some ty"
    using assms by blast
  then show "SortCompare (compare_rows Date_parse localeCompare (Some ''date'')) x y < 0 \<longleftrightarrow>
    - the (Date_getTime Date_parse (date_modified x))
      < - the (Date_getTime Date_parse (date_modified y))"
    by (simp add: SortCompare_def compare_rows_def)
qed

text \<open>
  By relevance the rows come out in descending order of score, rows of equal score in
  their original order.
\<close>

lemma relevance_sort_descending_stable:
  "sorted_wrt (\<lambda>a b. score a \<ge> score b) (Array_sort (compare_rows Date_parse localeCompare None) rs)
   \<and> filter (\<lambda>r. score r = v) (Array_sort (compare_rows Date_parse localeCompare None) rs) =
       filter (\<lambda>r. score r = v) rs"
proof -
  have "sorted (map (\<lambda>r. - score r) (sort_key (\<lambda>r. - score r) rs))"
    by (rule sorted_sort_key)
  then have "sorted_wrt (\<lambda>a b. score a \<ge> score b) (sort_key (\<lambda>r. - score r) rs)"
    by (simp add: sorted_map)
  moreover have "filter (\<lambda>r. - score r = - v) (sort_key (\<lambda>r. - score r) rs) =
      filter (\<lambda>r. - score r = - v) rs"
    by (rule sort_key_stable)
  ultimately show ?thesis
    by (simp add: relevance_sort)
qed

text \<open>
  With four rows the undated one ends behind the dated ones here, since the leading run
  of two is reversed and the last row is searched past it; the order depends on where
  the undated row stands, not on its date.
\<close>

lemma date_sort_four_rows:
  assumes "Date_getTime Date_parse (date_modified p) = Some tp"
    and "Date_getTime Date_parse (date_modified q) = Some tq"
    and "Date_getTime Date_parse (date_modified r) = Some tr"
    and "tp < tq" "tq < tr"
  shows "Array_sort (compare_rows Date_parse localeCompare (Some ''date''))
      [p, q, u\<lparr>date_modified := None\<rparr>, r] = [r, q, p, u\<lparr>date_modified := None\<rparr>]"
proof -
  let ?c = "compare_rows Date_parse localeCompare (Some ''date'')"
  let ?u = "u\<lparr>date_modified := None\<rparr>"
  have nan: "SortCompare ?c x ?u = 0" "SortCompare ?c ?u x = 0" for x
    by (simp_all add: SortCompare_def compare_rows_def Date_getTime_def split: option.splits)
  have qp: "SortCompare ?c q p < 0" and rp: "SortCompare ?c r p < 0" and rq: "SortCompare ?c r q < 0"
    using assms by (simp_all add: SortCompare_def compare_rows_def)
  have run: "CountAndMakeRun ?c [p, q, ?u, r] = (2, [q, p, ?u, r])"
    using qp nan by (simp add: CountAndMakeRun_def)
  have one: "binary_insert ?c [q, p] ?u = [q, p, ?u]"
    using nan by (simp add: binary_insert_def insertion_point.simps)
  have two: "binary_insert ?c [q, p, ?u] r = [r, q, p, ?u]"
    using rp rq by (simp add: binary_insert_def insertion_point.simps)
  show ?thesis
    by (simp add: Array_sort_def run BinaryInsertionSort_def one two)
qed

text \<open>
  C6. By date, a row without a date compares as NaN with every row, which the sort reads
  as a tie: it is not moved behind a dated row, and a dated row is not moved across it.
  The two lists below come back as they went in, whatever dates \<open>b\<close> and \<open>c\<close> have, so
  with \<open>c\<close> older than \<open>b\<close> the result is not in descending order of date.
\<close>

theorem date_sort_leaves_undated_rows_in_place:
  "Array_sort (compare_rows Date_parse localeCompare (Some ''date''))
      [a\<lparr>date_modified := None\<rparr>, b] = [a\<lparr>date_modified := None\<rparr>, b]
   \<and> Array_sort (compare_rows Date_parse localeCompare (Some ''date''))
      [c, a\<lparr>date_modified := None\<rparr>, b] = [c, a\<lparr>date_modified := None\<rparr>, b]"
  by (simp add: Array_sort_def CountAndMakeRun_def BinaryInsertionSort_def SortCompare_def
      compare_rows_def Date_getTime_def split: option.splits)

subsection \<open>The grouping\<close>

lemma map_of_push:
  "map_of (map (\<lambda>(k, members). if k = key then (k, members @ [row]) else (k, members)) acc) k =
     (if k = key then map_option (\<lambda>members. members @ [row]) (map_of acc k) else map_of acc k)"
  by (induction acc) auto

lemma fst_push:
  "map fst (map (\<lambda>(k, members). if k = key then (k, members @ [row]) else (k, members)) acc) =
     map fst acc"
  by (induction acc) auto

lemma filter_no_key: "key \<notin> group_key ` set seen \<Longrightarrow> filter (\<lambda>r. group_key r = key) seen = []"
  by (induction seen) auto

lemma group_row_new:
  assumes inv: "grouped_so_far acc seen"
    and new: "group_key row \<notin> group_key ` set seen"
  shows "grouped_so_far (acc @ [(group_key row, [row])]) (seen @ [row])"
  unfolding grouped_so_far_def
proof (intro conjI allI)
  have none: "map_of acc (group_key row) = None"
    using inv new by (simp add: grouped_so_far_def)
  then have "group_key row \<notin> fst ` set acc"
    by (simp add: map_of_eq_None_iff)
  then show "distinct (map fst (acc @ [(group_key row, [row])]))"
    using inv by (simp add: grouped_so_far_def)
  fix k
  show "map_of (acc @ [(group_key row, [row])]) k =
      (if k \<in> group_key ` set (seen @ [row])
       then Some (filter (\<lambda>r. group_key r = k) (seen @ [row])) else None)"
  proof (cases "k = group_key row")
    case True
    then show ?thesis
      using none new by (simp add: map_add_def filter_no_key)
  next
    case False
    then have "map_of (acc @ [(group_key row, [row])]) k = map_of acc k"
      by (simp add: map_add_def split: option.splits)
    also have "\<dots> = (if k \<in> group_key ` set seen
        then Some (filter (\<lambda>r. group_key r = k) seen) else None)"
      using inv by (simp add: grouped_so_far_def)
    finally show ?thesis
      using False by auto
  qed
qed

lemma group_row_old:
  assumes inv: "grouped_so_far acc seen"
    and old: "group_key row \<in> group_key ` set seen"
  shows "grouped_so_far
     (map (\<lambda>(k, members). if k = group_key row then (k, members @ [row]) else (k, members)) acc)
     (seen @ [row])"
  unfolding grouped_so_far_def
proof (intro conjI allI)
  show "distinct (map fst
      (map (\<lambda>(k, members). if k = group_key row then (k, members @ [row]) else (k, members)) acc))"
    using inv by (simp only: fst_push grouped_so_far_def)
  fix k
  have at: "map_of acc k = (if k \<in> group_key ` set seen
      then Some (filter (\<lambda>r. group_key r = k) seen) else None)"
    using inv by (simp add: grouped_so_far_def)
  show "map_of
      (map (\<lambda>(k, members). if k = group_key row then (k, members @ [row]) else (k, members)) acc) k =
      (if k \<in> group_key ` set (seen @ [row])
       then Some (filter (\<lambda>r. group_key r = k) (seen @ [row])) else None)"
  proof (cases "k = group_key row")
    case True
    then show ?thesis
      using old at by (simp add: map_of_push)
  next
    case False
    then show ?thesis
      using at by (auto simp add: map_of_push)
  qed
qed

lemma group_row_step:
  assumes inv: "grouped_so_far acc seen"
    and ok: "group_key row \<notin> set Object_prototype_keys"
  shows "\<exists>acc'. group_row acc row = Inr acc' \<and> grouped_so_far acc' (seen @ [row])"
proof (cases "map_of acc (group_key row)")
  case None
  then have new: "group_key row \<notin> group_key ` set seen"
    using inv by (auto simp: grouped_so_far_def split: if_splits)
  have "group_row acc row = Inr (acc @ [(group_key row, [row])])"
    using None ok by (simp add: group_row_def)
  then show ?thesis
    using group_row_new [OF inv new] by simp
next
  case (Some members)
  then have old: "group_key row \<in> group_key ` set seen"
    using inv by (auto simp: grouped_so_far_def split: if_splits)
  have "group_row acc row = Inr
      (map (\<lambda>(k, members). if k = group_key row then (k, members @ [row]) else (k, members)) acc)"
    using Some by (simp add: group_row_def)
  then show ?thesis
    using group_row_old [OF inv old] by simp
qed

lemma reduce_rows_invariant:
  assumes "grouped_so_far acc seen"
    and "\<And>r. r \<in> set rs \<Longrightarrow> group_key r \<notin> set Object_prototype_keys"
  shows "\<exists>g. reduce_rows acc rs = Inr g \<and> grouped_so_far g (seen @ rs)"
  using assms
proof (induction rs arbitrary: acc seen)
  case Nil
  then show ?case by simp
next
  case (Cons r rs)
  have "group_key r \<notin> set Object_prototype_keys"
    using Cons.prems(2) by simp
  then obtain acc' where step: "group_row acc r = Inr acc'" "grouped_so_far acc' (seen @ [r])"
    using group_row_step [OF Cons.prems(1)] by blast
  have "\<exists>g. reduce_rows acc' rs = Inr g \<and> grouped_so_far g ((seen @ [r]) @ rs)"
    by (rule Cons.IH [OF step(2)]) (use Cons.prems(2) in simp)
  then show ?case
    using step(1) by simp
qed

lemma grouped_so_far_iff:
  assumes "grouped_so_far g rs"
  shows "(k, members) \<in> set g \<longleftrightarrow>
     k \<in> group_key ` set rs \<and> members = filter (\<lambda>r. group_key r = k) rs"
proof -
  have "distinct (map fst g)"
    using assms by (simp add: grouped_so_far_def)
  then have "(k, members) \<in> set g \<longleftrightarrow> map_of g k = Some members"
    by simp
  also have "\<dots> \<longleftrightarrow> k \<in> group_key ` set rs \<and> members = filter (\<lambda>r. group_key r = k) rs"
    using assms by (auto simp add: grouped_so_far_def)
  finally show ?thesis .
qed

text \<open>
  Where no row has such a key the effect ends well: the rows set are a permutation of the
  rows given, and the groups are, for each key met, the ordered rows of that key.
\<close>

lemma organize_effect_partitions:
  assumes "\<And>r. r \<in> set rs \<Longrightarrow> group_key r \<notin> set Object_prototype_keys"
  shows "\<exists>st'. organize_effect Date_parse localeCompare rs sortBy' st = Inr st'
     \<and> mset (sortedRows st') = mset rs
     \<and> distinct (map fst (groupedResults st'))
     \<and> (\<forall>k members. (k, members) \<in> set (groupedResults st') \<longleftrightarrow>
          k \<in> group_key ` set rs \<and> members = filter (\<lambda>r. group_key r = k) (sortedRows st'))"
proof -
  define sorted' where "sorted' = Array_sort (compare_rows Date_parse localeCompare sortBy') rs"
  have perm: "mset sorted' = mset rs"
    by (simp add: sorted'_def mset_Array_sort)
  then have same: "set sorted' = set rs"
    by (rule mset_eq_setD)
  have "grouped_so_far [] []"
    by (simp add: grouped_so_far_def)
  then have "\<exists>g. reduce_rows [] sorted' = Inr g \<and> grouped_so_far g ([] @ sorted')"
    by (rule reduce_rows_invariant) (use assms same in simp)
  then obtain g where g: "reduce_rows [] sorted' = Inr g" "grouped_so_far g sorted'"
    by auto
  have "organize_effect Date_parse localeCompare rs sortBy' st =
      Inr (st\<lparr>groupedResults := g, sortedRows := sorted'\<rparr>)"
    using g(1) by (simp add: organize_effect_def sorted'_def)
  moreover have "distinct (map fst g)"
    using g(2) by (simp add: grouped_so_far_def)
  moreover have "\<forall>k members. (k, members) \<in> set g \<longleftrightarrow>
      k \<in> group_key ` set rs \<and> members = filter (\<lambda>r. group_key r = k) sorted'"
    using grouped_so_far_iff [OF g(2)] same by simp
  ultimately show ?thesis
    using perm by simp
qed

text \<open>
  C10. A row whose document type is the name of a property every plain object inherits
  stops the effect with a TypeError: the accumulator's lookup finds the inherited
  function, no array is made, and \<^verbatim>\<open>push\<close> is called on the function. No grouped and no
  ordered rows are set.
\<close>

theorem organize_effect_throws_on_inherited_key:
  "organize_effect Date_parse localeCompare [r\<lparr>doc_type := ''constructor''\<rparr>] sortBy' st =
     Inl TypeError"
  by (simp add: organize_effect_def Array_sort_def group_row_def group_key_def
      Object_prototype_keys_def)

end
